theory Spec2Isabelle
  imports Main "HOL-Library.AList"
begin

section \<open>Meeting bot service: strings and meeting identifiers\<close>

text \<open>
  The meeting bot service (\<^verbatim>\<open>class MeetingBot\<close> and the Express handlers after it, in
  \<^verbatim>\<open>audio-service/src/server.js\<close>) is embedded function by function. A JavaScript string
  is a \<^typ>\<open>string\<close>: one \<^typ>\<open>char\<close> per code unit, for strings whose code units lie in
  0..255. The regular expressions of the source use no flag, so their character classes are
  plain ranges of code units.
\<close>

definition isDigit :: "char \<Rightarrow> bool" where
  "isDigit c = (48 \<le> (of_char c :: nat) \<and> (of_char c :: nat) \<le> 57)"

definition isLower :: "char \<Rightarrow> bool" where
  "isLower c = (97 \<le> (of_char c :: nat) \<and> (of_char c :: nat) \<le> 122)"

definition isUpper :: "char \<Rightarrow> bool" where
  "isUpper c = (65 \<le> (of_char c :: nat) \<and> (of_char c :: nat) \<le> 90)"

text \<open>The class \<^verbatim>\<open>[a-zA-Z0-9]\<close>, whose complement the fallback slug deletes.\<close>

definition isAlnum :: "char \<Rightarrow> bool" where
  "isAlnum c = (isLower c \<or> isUpper c \<or> isDigit c)"

text \<open>The class \<^verbatim>\<open>[a-z\-]\<close> of the Google Meet pattern.\<close>

definition isMeetChar :: "char \<Rightarrow> bool" where
  "isMeetChar c = (isLower c \<or> c = CHR ''-'')"

text \<open>The class \<^verbatim>\<open>[^\/]\<close> of the Teams pattern.\<close>

definition notSlash :: "char \<Rightarrow> bool" where
  "notSlash c = (c \<noteq> CHR ''/'')"

text \<open>
  Each of the three patterns is a literal followed by one capture group \<^verbatim>\<open>(cls+)\<close> and
  nothing after it. At a start position such a pattern matches iff the literal is there and
  at least one character of the class follows; the greedy group then takes the longest run.
\<close>

definition matchAt :: "string \<Rightarrow> (char \<Rightarrow> bool) \<Rightarrow> string \<Rightarrow> string option" where
  "matchAt lit cls s =
     (if take (length lit) s = lit
      then (let g = takeWhile cls (drop (length lit) s) in if g = [] then None else Some g)
      else None)"

text \<open>\<^verbatim>\<open>url.match(pattern)\<close>: the leftmost start position that matches; the result is group 1.\<close>

fun regexMatch :: "string \<Rightarrow> (char \<Rightarrow> bool) \<Rightarrow> string \<Rightarrow> string option" where
  "regexMatch lit cls [] = matchAt lit cls []"
| "regexMatch lit cls (c # s) =
     (case matchAt lit cls (c # s) of
        Some g \<Rightarrow> Some g
      | None \<Rightarrow> regexMatch lit cls s)"

definition zoomPattern :: "string \<Rightarrow> string option" where
  "zoomPattern url = regexMatch ''/j/'' isDigit url"

definition meetPattern :: "string \<Rightarrow> string option" where
  "meetPattern url = regexMatch ''meet.google.com/'' isMeetChar url"

definition teamsPattern :: "string \<Rightarrow> string option" where
  "teamsPattern url = regexMatch ''meetup-join/'' notSlash url"

text \<open>
  \<^verbatim>\<open>extractMeetingId(url)\<close>: the patterns are tried in the order of the object literal
  (zoom, meet, teams); the first that matches returns its group. Otherwise every character
  outside \<^verbatim>\<open>[a-zA-Z0-9]\<close> is deleted and \<^verbatim>\<open>substring(0, 20)\<close> keeps at most 20.
\<close>

definition extractMeetingId :: "string \<Rightarrow> string" where
  "extractMeetingId url =
     (case zoomPattern url of
        Some g \<Rightarrow> g
      | None \<Rightarrow>
         (case meetPattern url of
            Some g \<Rightarrow> g
          | None \<Rightarrow>
             (case teamsPattern url of
                Some g \<Rightarrow> g
              | None \<Rightarrow> take 20 (filter isAlnum url))))"

text \<open>\<^verbatim>\<open>str.replace(pat, rep)\<close> with a string pattern: the first occurrence only.\<close>

fun replaceFirst :: "string \<Rightarrow> string \<Rightarrow> string \<Rightarrow> string" where
  "replaceFirst pat rep [] = (if pat = [] then rep else [])"
| "replaceFirst pat rep (c # s) =
     (if take (length pat) (c # s) = pat then rep @ drop (length pat) (c # s)
      else c # replaceFirst pat rep s)"

text \<open>
  \<^verbatim>\<open>str.toLowerCase()\<close> on code units 0..255: the letters A-Z and the upper-case letters
  of Latin-1 (192..222 without the multiplication sign 215) move up by 32.
\<close>

definition toLowerChar :: "char \<Rightarrow> char" where
  "toLowerChar c =
     (let n = (of_char c :: nat)
      in if (65 \<le> n \<and> n \<le> 90) \<or> (192 \<le> n \<and> n \<le> 222 \<and> n \<noteq> 215)
         then char_of (n + 32) else c)"

definition toLowerCase :: "string \<Rightarrow> string" where
  "toLowerCase s = map toLowerChar s"

text \<open>\<^verbatim>\<open>str.includes(sub)\<close>.\<close>

fun includes_str :: "string \<Rightarrow> string \<Rightarrow> bool" where
  "includes_str sub [] = (sub = [])"
| "includes_str sub (c # s) = (take (length sub) (c # s) = sub \<or> includes_str sub s)"

section \<open>The outside world\<close>

text \<open>
  The browser automation (puppeteer, playwright) and the HTTP client (axios) are outside the
  repository. Each call the bot awaits is recorded, and the world answers it: \<open>None\<close> when
  the promise resolves, \<open>Some msg\<close> when it rejects with an error whose \<^verbatim>\<open>message\<close> is
  \<open>msg\<close>. A browser is named by the number of the launch that created it; its single page
  carries the same number. The timeout options of the waits are left to the world: whether a
  wait times out is its answer.
\<close>

type_synonym handle = nat

datatype ext_call =
    Launch handle
  | NewContext handle
  | NewPage handle
  | OverridePermissions handle string
  | Goto handle string
  | WaitForSelector handle string
  | TypeText handle string string
  | Fill handle string string
  | Click handle string
  | EvaluateOnNewDocument handle
  | Close handle
  | Post string string nat

type_synonym world = "ext_call \<Rightarrow> string option"

text \<open>A step inside \<^verbatim>\<open>try { ... } catch (e) { }\<close> of its own is a \<open>Try\<close>: its failure is dropped.\<close>

datatype step = Must ext_call | Try ext_call

fun perform :: "world \<Rightarrow> step list \<Rightarrow> (ext_call \<times> string option) list \<times> string option" where
  "perform w [] = ([], None)"
| "perform w (Must c # cs) =
     (case w c of
        Some e \<Rightarrow> ([(c, Some e)], Some e)
      | None \<Rightarrow> (let (tr, r) = perform w cs in ((c, None) # tr, r)))"
| "perform w (Try c # cs) = (let (tr, r) = perform w cs in ((c, w c) # tr, r))"

section \<open>The bot\<close>

record meeting =
  browser :: handle
  page :: handle
  platform :: string
  startTime :: nat
  status :: string

datatype log_entry = Info string | Error string string

datatype result = Success "string option" | Failure string

text \<open>
  A Date as its local-time fields (\<^verbatim>\<open>getMonth()\<close> counts from 0), and a task registered
  with \<^verbatim>\<open>cron.schedule\<close>: the four numbers of its pattern
  \<^verbatim>\<open>minute hour day-of-month month *\<close> and the variables its callback closes over.
\<close>

record date =
  getFullYear :: nat
  getMonth :: nat
  getDate :: nat
  getHours :: nat
  getMinutes :: nat

record cron_task =
  cronMinute :: nat
  cronHour :: nat
  cronDay :: nat
  cronMonth :: nat
  taskUrl :: string
  taskTime :: string
  taskPlatform :: string
  taskPassword :: "string option"

text \<open>
  \<^verbatim>\<open>activeMeetings\<close> is a JavaScript Map: an association list in insertion order, where
  \<^verbatim>\<open>set\<close> on a present key replaces the value in place (\<^const>\<open>AList.update\<close>) and
  \<^verbatim>\<open>delete\<close> drops the key (\<^const>\<open>AList.delete\<close>). The other fields are the world as
  the bot has changed it: the calls made with their answers, the log, the console listeners
  installed on pages and the cron tasks registered.
\<close>

record bot =
  activeMeetings :: "(string \<times> meeting) list"
  nextHandle :: handle
  calls :: "(ext_call \<times> string option) list"
  logs :: "log_entry list"
  listeners :: "(handle \<times> string) list"
  tasks :: "cron_task list"

definition newBot :: bot where
  "newBot = \<lparr>activeMeetings = [], nextHandle = 0, calls = [], logs = [], listeners = [],
     tasks = []\<rparr>"

text \<open>
  \<^verbatim>\<open>startAudioCapture(page, meetingId)\<close>: the script injection is awaited and may reject;
  \<^verbatim>\<open>page.on('console', ...)\<close> then installs the listener.
\<close>

definition startAudioCapture :: "world \<Rightarrow> handle \<Rightarrow> string \<Rightarrow> bot \<Rightarrow> string option \<times> bot" where
  "startAudioCapture w pg meetingId s =
     (case w (EvaluateOnNewDocument pg) of
        Some e \<Rightarrow> (Some e, s\<lparr>calls := calls s @ [(EvaluateOnNewDocument pg, Some e)]\<rparr>)
      | None \<Rightarrow>
          (None, s\<lparr>calls := calls s @ [(EvaluateOnNewDocument pg, None)],
                   listeners := listeners s @ [(pg, meetingId)]\<rparr>))"

text \<open>
  The three join methods have one shape: log, the platform's driver steps, registration
  under the extracted id with status \<^verbatim>\<open>'active'\<close>, audio capture, all inside one
  \<^verbatim>\<open>try\<close> whose \<^verbatim>\<open>catch\<close> logs and returns \<^verbatim>\<open>{ success: false, error: error.message }\<close>.
  They differ in the steps, the platform tag and the wording of the log.
\<close>

definition joinSequence ::
  "world \<Rightarrow> nat \<Rightarrow> string \<Rightarrow> string \<Rightarrow> (handle \<Rightarrow> step list) \<Rightarrow> string \<Rightarrow> bot \<Rightarrow> result \<times> bot" where
  "joinSequence w now label tag steps meetingUrl s =
     (let b = nextHandle s;
          s1 = s\<lparr>nextHandle := Suc b,
                 logs := logs s @ [Info (''Joining '' @ label @ '': '' @ meetingUrl)]\<rparr>;
          (tr, r) = perform w (steps b);
          s2 = s1\<lparr>calls := calls s1 @ tr\<rparr>
      in case r of
           Some e \<Rightarrow>
             (Failure e, s2\<lparr>logs := logs s2 @ [Error (''Error joining '' @ label @ '':'') e]\<rparr>)
         | None \<Rightarrow>
             (let meetingId = extractMeetingId meetingUrl;
                  s3 = s2\<lparr>activeMeetings :=
                         AList.update meetingId
                           \<lparr>browser = b, page = b, platform = tag, startTime = now,
                            status = ''active''\<rparr>
                           (activeMeetings s2)\<rparr>
              in case startAudioCapture w b meetingId s3 of
                   (Some e, s4) \<Rightarrow>
                     (Failure e,
                      s4\<lparr>logs := logs s4 @ [Error (''Error joining '' @ label @ '':'') e]\<rparr>)
                 | (None, s4) \<Rightarrow>
                     (Success (Some meetingId),
                      s4\<lparr>logs := logs s4 @
                           [Info (''Successfully joined '' @ label @ '': '' @ meetingId)]\<rparr>)))"

text \<open>A default parameter applies when the argument is \<^verbatim>\<open>undefined\<close>.\<close>

definition botNameOr :: "string option \<Rightarrow> string" where
  "botNameOr botName = (case botName of None \<Rightarrow> ''Verba AI Notetaker'' | Some n \<Rightarrow> n)"

text \<open>\<^verbatim>\<open>if (meetingPassword)\<close>: a missing or empty password skips the password steps.\<close>

definition zoomSteps :: "string \<Rightarrow> string option \<Rightarrow> string \<Rightarrow> handle \<Rightarrow> step list" where
  \<open>zoomSteps meetingUrl meetingPassword botName b =
     [Must (Launch b), Must (NewPage b), Must (OverridePermissions b meetingUrl),
      Must (Goto b (replaceFirst ''zoom.us/j/'' ''zoom.us/wc/join/'' meetingUrl)),
      Must (WaitForSelector b ''input[type="text"]''),
      Must (TypeText b ''input[type="text"]'' botName)] @
     (case meetingPassword of
        None \<Rightarrow> []
      | Some pw \<Rightarrow>
          if pw = [] then []
          else [Must (WaitForSelector b ''input[type="password"]''),
                Must (TypeText b ''input[type="password"]'' pw)]) @
     [Must (Click b ''button[class*="join"]'')]\<close>

definition meetSteps :: "string \<Rightarrow> string \<Rightarrow> handle \<Rightarrow> step list" where
  \<open>meetSteps meetingUrl botName b =
     [Must (Launch b), Must (NewContext b), Must (NewPage b), Must (Goto b meetingUrl),
      Try (Click b ''button[aria-label="Dismiss"]''),
      Must (WaitForSelector b ''input[placeholder*="name" i]''),
      Must (Fill b ''input[placeholder*="name" i]'' botName),
      Must (Click b ''div[role="button"][aria-label*="camera" i]''),
      Must (Click b ''div[role="button"][aria-label*="microphone" i]''),
      Must (Click b ''button[jsname="Qx7uuf"]'')]\<close>

definition teamsSteps :: "string \<Rightarrow> string \<Rightarrow> handle \<Rightarrow> step list" where
  \<open>teamsSteps meetingUrl botName b =
     [Must (Launch b), Must (NewPage b), Must (Goto b meetingUrl),
      Must (WaitForSelector b ''a[class*="use-web-client"]''),
      Must (Click b ''a[class*="use-web-client"]''),
      Must (WaitForSelector b ''input[placeholder*="name" i]''),
      Must (Fill b ''input[placeholder*="name" i]'' botName),
      Must (Click b ''toggle-button[aria-label*="camera" i]''),
      Must (Click b ''toggle-button[aria-label*="mic" i]''),
      Must (Click b ''button[class*="join-btn"]'')]\<close>

definition joinZoomMeeting ::
  "world \<Rightarrow> nat \<Rightarrow> string \<Rightarrow> string option \<Rightarrow> string option \<Rightarrow> bot \<Rightarrow> result \<times> bot" where
  "joinZoomMeeting w now meetingUrl meetingPassword botName s =
     joinSequence w now ''Zoom meeting'' ''zoom''
       (zoomSteps meetingUrl meetingPassword (botNameOr botName)) meetingUrl s"

definition joinGoogleMeet :: "world \<Rightarrow> nat \<Rightarrow> string \<Rightarrow> string option \<Rightarrow> bot \<Rightarrow> result \<times> bot" where
  "joinGoogleMeet w now meetingUrl botName s =
     joinSequence w now ''Google Meet'' ''meet'' (meetSteps meetingUrl (botNameOr botName))
       meetingUrl s"

definition joinTeamsMeeting :: "world \<Rightarrow> nat \<Rightarrow> string \<Rightarrow> string option \<Rightarrow> bot \<Rightarrow> result \<times> bot" where
  "joinTeamsMeeting w now meetingUrl botName s =
     joinSequence w now ''Teams meeting'' ''teams'' (teamsSteps meetingUrl (botNameOr botName))
       meetingUrl s"

text \<open>
  \<^verbatim>\<open>sendToTranscription(meetingId, audioData)\<close>: one POST inside a \<^verbatim>\<open>try\<close>; the
  \<^verbatim>\<open>catch\<close> logs and returns normally.
\<close>

definition sendToTranscription :: "world \<Rightarrow> nat \<Rightarrow> string \<Rightarrow> string \<Rightarrow> bot \<Rightarrow> bot" where
  "sendToTranscription w now meetingId audioData s =
     (case w (Post meetingId audioData now) of
        None \<Rightarrow> s\<lparr>calls := calls s @ [(Post meetingId audioData now, None)]\<rparr>
      | Some e \<Rightarrow>
          s\<lparr>calls := calls s @ [(Post meetingId audioData now, Some e)],
            logs := logs s @ [Error ''Error sending audio to transcription:'' e]\<rparr>)"

text \<open>
  A console message on page \<open>pg\<close>: every listener installed on that page forwards a message
  of type \<^verbatim>\<open>log\<close> whose text includes \<^verbatim>\<open>AUDIO_DATA\<close>.
\<close>

definition consoleMessage :: "world \<Rightarrow> nat \<Rightarrow> handle \<Rightarrow> string \<Rightarrow> string \<Rightarrow> bot \<Rightarrow> bot" where
  "consoleMessage w now pg msgType msgText s =
     foldl (\<lambda>s' (p, meetingId).
              if p = pg \<and> msgType = ''log'' \<and> includes_str ''AUDIO_DATA'' msgText
              then sendToTranscription w now meetingId msgText s' else s')
       s (listeners s)"

text \<open>\<^verbatim>\<open>leaveMeeting(meetingId)\<close>: the delete follows the awaited close inside the \<^verbatim>\<open>try\<close>.\<close>

definition leaveMeeting :: "world \<Rightarrow> string \<Rightarrow> bot \<Rightarrow> result \<times> bot" where
  "leaveMeeting w meetingId s =
     (case map_of (activeMeetings s) meetingId of
        None \<Rightarrow> (Failure ''Meeting not found'', s)
      | Some m \<Rightarrow>
         (case w (Close (browser m)) of
            None \<Rightarrow>
              (Success None,
               s\<lparr>calls := calls s @ [(Close (browser m), None)],
                 activeMeetings := AList.delete meetingId (activeMeetings s),
                 logs := logs s @ [Info (''Left meeting: '' @ meetingId)]\<rparr>)
          | Some e \<Rightarrow>
              (Failure e,
               s\<lparr>calls := calls s @ [(Close (browser m), Some e)],
                 logs := logs s @ [Error ''Error leaving meeting:'' e]\<rparr>)))"

text \<open>
  \<^verbatim>\<open>leaveMeeting\<close> suspends once, at \<^verbatim>\<open>await meeting.browser.close()\<close>, between the
  lookup and the delete; another request can run while it waits. \<open>leaveBegin\<close> is the part
  before the suspension: the lookup, which either answers at once or leaves the method
  waiting for the close of the browser of the meeting it has found. \<open>leaveResume\<close> is the
  part after it, run when the close has settled, with the meeting found at the lookup: the
  call is recorded with its answer, and the delete is a \<^verbatim>\<open>Map.delete\<close>, which does nothing
  when the key is gone. \<^const>\<open>leaveMeeting\<close> above is the run with nothing in between.
\<close>

datatype leave_pending = Answered result | Awaiting string meeting

definition leaveBegin :: "string \<Rightarrow> bot \<Rightarrow> leave_pending" where
  "leaveBegin meetingId s =
     (case map_of (activeMeetings s) meetingId of
        None \<Rightarrow> Answered (Failure ''Meeting not found'')
      | Some m \<Rightarrow> Awaiting meetingId m)"

definition leaveResume :: "world \<Rightarrow> string \<Rightarrow> meeting \<Rightarrow> bot \<Rightarrow> result \<times> bot" where
  "leaveResume w meetingId m s =
     (case w (Close (browser m)) of
        None \<Rightarrow>
          (Success None,
           s\<lparr>calls := calls s @ [(Close (browser m), None)],
             activeMeetings := AList.delete meetingId (activeMeetings s),
             logs := logs s @ [Info (''Left meeting: '' @ meetingId)]\<rparr>)
      | Some e \<Rightarrow>
          (Failure e,
           s\<lparr>calls := calls s @ [(Close (browser m), Some e)],
             logs := logs s @ [Error ''Error leaving meeting:'' e]\<rparr>))"

definition leaveSettle :: "world \<Rightarrow> leave_pending \<Rightarrow> bot \<Rightarrow> result \<times> bot" where
  "leaveSettle w p s =
     (case p of Answered r \<Rightarrow> (r, s) | Awaiting meetingId m \<Rightarrow> leaveResume w meetingId m s)"

text \<open>
  Two leaves of one id, by when the second starts. In \<open>leaveThenLeave\<close> the second starts
  after the first has answered, so its lookup sees the state the first has left. In
  \<open>leaveDuringLeave\<close> the second starts while the first still waits for its close, so both
  lookups see the same registry; one close settles with the answer of \<open>w\<close>, then
  the other with the answer of \<open>w'\<close> (the requests are alike, so which of them settles
  first is a matter of naming). Each gives the two answers and the final state.
\<close>

definition leaveThenLeave :: "world \<Rightarrow> world \<Rightarrow> string \<Rightarrow> bot \<Rightarrow> (result \<times> result) \<times> bot" where
  "leaveThenLeave w w' meetingId s =
     (let (r1, s1) = leaveSettle w (leaveBegin meetingId s) s;
          (r2, s2) = leaveSettle w' (leaveBegin meetingId s1) s1
      in ((r1, r2), s2))"

definition leaveDuringLeave :: "world \<Rightarrow> world \<Rightarrow> string \<Rightarrow> bot \<Rightarrow> (result \<times> result) \<times> bot" where
  "leaveDuringLeave w w' meetingId s =
     (let p1 = leaveBegin meetingId s;
          p2 = leaveBegin meetingId s;
          (r1, s1) = leaveSettle w p1 s;
          (r2, s2) = leaveSettle w' p2 s1
      in ((r1, r2), s2))"

section \<open>The HTTP handlers\<close>

text \<open>\<^verbatim>\<open>POST /api/join-meeting\<close>: the switch over the lower-cased platform name.\<close>

definition join_meeting ::
  "world \<Rightarrow> nat \<Rightarrow> string \<Rightarrow> string \<Rightarrow> string option \<Rightarrow> string option \<Rightarrow> bot \<Rightarrow> result \<times> bot" where
  "join_meeting w now platformName meetingUrl password botName s =
     (let p = toLowerCase platformName
      in if p = ''zoom'' then joinZoomMeeting w now meetingUrl password botName s
         else if p = ''meet'' \<or> p = ''google'' then joinGoogleMeet w now meetingUrl botName s
         else if p = ''teams'' \<or> p = ''microsoft'' then joinTeamsMeeting w now meetingUrl botName s
         else (Failure ''Unsupported platform'', s))"

text \<open>\<^verbatim>\<open>POST /api/leave-meeting\<close> answers with the result of \<^const>\<open>leaveMeeting\<close>.\<close>

definition leave_meeting :: "world \<Rightarrow> string \<Rightarrow> bot \<Rightarrow> result \<times> bot" where
  "leave_meeting w meetingId s = leaveMeeting w meetingId s"

text \<open>\<^verbatim>\<open>GET /api/active-meetings\<close>: id, platform, start time and status of every entry.\<close>

record summary =
  sum_id :: string
  sum_platform :: string
  sum_startTime :: nat
  sum_status :: string

definition active_meetings :: "bot \<Rightarrow> summary list" where
  "active_meetings s =
     map (\<lambda>(mid, data). \<lparr>sum_id = mid, sum_platform = platform data,
                           sum_startTime = startTime data, sum_status = status data\<rparr>)
       (activeMeetings s)"

text \<open>
  \<^verbatim>\<open>POST /api/schedule-bot\<close>: the pattern is built from the minutes, hours, day and
  month + 1 of \<^verbatim>\<open>new Date(scheduledTime)\<close>, given here already parsed as \<open>cronTime\<close>; the
  task returned by \<^verbatim>\<open>cron.schedule\<close> is not kept.
\<close>

definition schedule_bot :: "string \<Rightarrow> string \<Rightarrow> date \<Rightarrow> string \<Rightarrow> string option \<Rightarrow> bot \<Rightarrow> bot" where
  "schedule_bot meetingUrl scheduledTime cronTime platformName password s =
     s\<lparr>tasks := tasks s @
        [\<lparr>cronMinute = getMinutes cronTime, cronHour = getHours cronTime,
          cronDay = getDate cronTime, cronMonth = getMonth cronTime + 1,
          taskUrl = meetingUrl, taskTime = scheduledTime, taskPlatform = platformName,
          taskPassword = password\<rparr>]\<rparr>"

text \<open>The callback given to \<^verbatim>\<open>cron.schedule\<close>; the results of the joins are dropped.\<close>

definition scheduledJob :: "world \<Rightarrow> nat \<Rightarrow> cron_task \<Rightarrow> bot \<Rightarrow> bot" where
  "scheduledJob w now t s =
     (let s1 = s\<lparr>logs := logs s @ [Info (''Scheduled bot joining meeting at '' @ taskTime t)]\<rparr>;
          p = toLowerCase (taskPlatform t)
      in if p = ''zoom'' then snd (joinZoomMeeting w now (taskUrl t) (taskPassword t) None s1)
         else if p = ''meet'' then snd (joinGoogleMeet w now (taskUrl t) None s1)
         else if p = ''teams'' then snd (joinTeamsMeeting w now (taskUrl t) None s1)
         else s1)"

text \<open>
  The scheduler is node-cron, outside the repository; it is taken with the meaning of a
  five-field cron pattern: a task with pattern \<^verbatim>\<open>m h D M *\<close> is due at every minute
  whose minute, hour, day of month and month are \<open>m\<close>, \<open>h\<close>, \<open>D\<close>, \<open>M\<close>. The pattern
  has no year field. At a tick of the clock every due task runs; no task is removed, since
  the handler keeps no reference to a task and never stops one.
\<close>

definition due :: "date \<Rightarrow> cron_task \<Rightarrow> bool" where
  "due d t = (getMinutes d = cronMinute t \<and> getHours d = cronHour t \<and>
              getDate d = cronDay t \<and> getMonth d + 1 = cronMonth t)"

definition tick :: "world \<Rightarrow> nat \<Rightarrow> date \<Rightarrow> bot \<Rightarrow> bot" where
  "tick w now d s = foldl (\<lambda>s' t. scheduledJob w now t s') s (filter (due d) (tasks s))"

section \<open>Observations on a run\<close>

text \<open>The calls a step has added to the record, and the calls that close a browser.\<close>

definition callsSince :: "bot \<Rightarrow> bot \<Rightarrow> (ext_call \<times> string option) list" where
  "callsSince s s' = drop (length (calls s)) (calls s')"

definition isClose :: "ext_call \<Rightarrow> bool" where
  "isClose c = (case c of Close b \<Rightarrow> True | _ \<Rightarrow> False)"

fun call_of :: "step \<Rightarrow> ext_call" where
  "call_of (Must c) = c"
| "call_of (Try c) = c"

text \<open>
  What the proofs need of a platform's steps: the first is the launch, none closes a
  browser or injects the capture script, and the only step whose failure is dropped is the
  click that dismisses a popup.
\<close>

definition plainSteps :: "(handle \<Rightarrow> step list) \<Rightarrow> bool" where
  \<open>plainSteps steps =
     (\<forall>b. (\<exists>cs. steps b = Must (Launch b) # cs) \<and>
          (\<forall>st \<in> set (steps b).
             \<not> isClose (call_of st) \<and> call_of st \<noteq> EvaluateOnNewDocument b \<and>
             (\<forall>c. st = Try c \<longrightarrow> c = Click b ''button[aria-label="Dismiss"]'')))\<close>

text \<open>
  The states the service can be in: it starts with \<^const>\<open>newBot\<close>, and every request, console
  message and tick of the clock is one step, whatever the world answers. Each asynchronous
  handler is taken as one step, run to its end.
\<close>

inductive reachable :: "bot \<Rightarrow> bool" where
  start: "reachable newBot"
| join: "reachable s \<Longrightarrow>
     reachable (snd (join_meeting w now platformName meetingUrl password botName s))"
| leave: "reachable s \<Longrightarrow> reachable (snd (leave_meeting w meetingId s))"
| console: "reachable s \<Longrightarrow> reachable (consoleMessage w now pg msgType msgText s)"
| schedule: "reachable s \<Longrightarrow>
     reachable (schedule_bot meetingUrl scheduledTime cronTime platformName password s)"
| clock: "reachable s \<Longrightarrow> reachable (tick w now d s)"

text \<open>
  The invariant of the registry: one entry per key, every entry with status
  \<^verbatim>\<open>'active'\<close> and a browser that has been launched.
\<close>

definition registryOk :: "bot \<Rightarrow> bool" where
  "registryOk s =
     (distinct (map fst (activeMeetings s)) \<and>
      (\<forall>(mid, m) \<in> set (activeMeetings s). status m = ''active'' \<and> browser m < nextHandle s))"

section \<open>Scenarios\<close>

text \<open>
  Worlds and states for the concrete runs below: a world where every call resolves, worlds
  where one kind of call rejects, the bot after one successful Zoom join, and the bot with
  one join scheduled for 2 November 2026, 10:30.
\<close>

definition allGood :: world where
  "allGood c = None"

definition navigationFails :: world where
  "navigationFails c = (case c of Goto b u \<Rightarrow> Some ''net::ERR_NAME_NOT_RESOLVED'' | _ \<Rightarrow> None)"

definition audioFails :: world where
  "audioFails c = (if c = EvaluateOnNewDocument 0 then Some ''Target closed'' else None)"

definition closeFails :: world where
  "closeFails c = (if isClose c then Some ''Protocol error'' else None)"

definition postFails :: world where
  "postFails c = (case c of Post i a t \<Rightarrow> Some ''connect ECONNREFUSED'' | _ \<Rightarrow> None)"

definition zoomUrl :: string where
  "zoomUrl = ''https://zoom.us/j/123456789''"

definition inZoom :: bot where
  "inZoom = snd (join_meeting allGood 0 ''zoom'' zoomUrl None None newBot)"

definition scheduledAt :: date where
  "scheduledAt = \<lparr>getFullYear = 2026, getMonth = 10, getDate = 2, getHours = 10, getMinutes = 30\<rparr>"

definition oneYearLater :: date where
  "oneYearLater = \<lparr>getFullYear = 2027, getMonth = 10, getDate = 2, getHours = 10, getMinutes = 30\<rparr>"

definition zoomScheduled :: bot where
  "zoomScheduled = schedule_bot zoomUrl ''2026-11-02T10:30:00'' scheduledAt ''zoom'' None newBot"

section \<open>Meeting identifier extraction\<close>

text \<open>
  What it means for a pattern not to match: nowhere in the string does the literal occur
  followed by a character of the class.
\<close>

lemma matchAt_None_iff:
  "matchAt lit cls s = None \<longleftrightarrow> \<not> (\<exists>c post. s = lit @ c # post \<and> cls c)"
proof (cases "take (length lit) s = lit")
  case False
  then have "\<not> (\<exists>c post. s = lit @ c # post \<and> cls c)" by auto
  with False show ?thesis by (simp add: matchAt_def)
next
  case True
  then have s: "s = lit @ drop (length lit) s"
    by (metis append_take_drop_id)
  show ?thesis
  proof (cases "drop (length lit) s")
    case Nil
    with s have "s = lit" by simp
    with True Nil show ?thesis by (simp add: matchAt_def)
  next
    case (Cons d ds)
    with s have s': "s = lit @ d # ds" by simp
    have "(\<exists>c post. s = lit @ c # post \<and> cls c) \<longleftrightarrow> cls d"
      using s' by auto
    with True Cons show ?thesis by (simp add: matchAt_def)
  qed
qed

lemma regexMatch_None_iff:
  "regexMatch lit cls s = None \<longleftrightarrow> \<not> (\<exists>pre c post. s = pre @ lit @ c # post \<and> cls c)"
proof (induction s)
  case Nil
  then show ?case by (auto simp: matchAt_None_iff)
next
  case (Cons a s)
  show ?case
  proof (cases "matchAt lit cls (a # s)")
    case None
    then have no: "\<not> (\<exists>c post. a # s = lit @ c # post \<and> cls c)"
      by (simp add: matchAt_None_iff)
    have "(\<exists>pre c post. a # s = pre @ lit @ c # post \<and> cls c) \<longleftrightarrow>
          (\<exists>pre c post. s = pre @ lit @ c # post \<and> cls c)"
    proof
      assume "\<exists>pre c post. a # s = pre @ lit @ c # post \<and> cls c"
      then obtain pre c post where e: "a # s = pre @ lit @ c # post" and c: "cls c" by blast
      show "\<exists>pre c post. s = pre @ lit @ c # post \<and> cls c"
      proof (cases pre)
        case Nil
        with e c no show ?thesis by auto
      next
        case (Cons p ps)
        with e have "s = ps @ lit @ c # post" by simp
        with c show ?thesis by blast
      qed
    next
      assume "\<exists>pre c post. s = pre @ lit @ c # post \<and> cls c"
      then obtain pre c post where "s = pre @ lit @ c # post" and c: "cls c" by blast
      then have "a # s = (a # pre) @ lit @ c # post" by simp
      with c show "\<exists>pre c post. a # s = pre @ lit @ c # post \<and> cls c" by blast
    qed
    with None Cons.IH show ?thesis by simp
  next
    case (Some g)
    then have "\<exists>c post. a # s = lit @ c # post \<and> cls c"
      using matchAt_None_iff[of lit cls "a # s"] by auto
    then obtain c post where "a # s = [] @ lit @ c # post" "cls c" by auto
    then have "\<exists>pre c post. a # s = pre @ lit @ c # post \<and> cls c" by blast
    with Some show ?thesis by simp
  qed
qed

lemma extract_fallback:
  "zoomPattern url = None \<Longrightarrow> meetPattern url = None \<Longrightarrow> teamsPattern url = None \<Longrightarrow>
   extractMeetingId url = take 20 (filter isAlnum url)"
  by (simp add: extractMeetingId_def)

text \<open>
  C3. The meeting id is a function of the URL alone (the method reads nothing else, so equal
  URLs give equal ids); \<^verbatim>\<open>https://zoom.us/j/123456789\<close> gives \<^verbatim>\<open>123456789\<close> and
  \<^verbatim>\<open>https://meet.google.com/abc-defg-hij\<close> gives \<^verbatim>\<open>abc-defg-hij\<close>; a URL that none of
  the three patterns matches gives the whole string with every character outside
  \<^verbatim>\<open>[a-zA-Z0-9]\<close> removed, cut to at most 20 characters.
\<close>

theorem extractMeetingId_deterministic:
  "(url = url' \<longrightarrow> extractMeetingId url = extractMeetingId url') \<and>
   extractMeetingId ''https://zoom.us/j/123456789'' = ''123456789'' \<and>
   extractMeetingId ''https://meet.google.com/abc-defg-hij'' = ''abc-defg-hij'' \<and>
   (zoomPattern url = None \<and> meetPattern url = None \<and> teamsPattern url = None \<longrightarrow>
      extractMeetingId url = take 20 (filter isAlnum url) \<and>
      length (extractMeetingId url) \<le> 20 \<and>
      (\<forall>c \<in> set (extractMeetingId url). isAlnum c))"
proof (intro conjI impI)
  assume "url = url'"
  then show "extractMeetingId url = extractMeetingId url'" by (rule arg_cong)
next
  show "extractMeetingId ''https://zoom.us/j/123456789'' = ''123456789''"
    by code_simp
next
  show "extractMeetingId ''https://meet.google.com/abc-defg-hij'' = ''abc-defg-hij''"
    by code_simp
next
  assume "zoomPattern url = None \<and> meetPattern url = None \<and> teamsPattern url = None"
  then show "extractMeetingId url = take 20 (filter isAlnum url)"
    by (simp add: extract_fallback)
next
  show "length (extractMeetingId url) \<le> 20"
    if "zoomPattern url = None \<and> meetPattern url = None \<and> teamsPattern url = None"
    using that by (simp add: extract_fallback)
next
  show "\<forall>c \<in> set (extractMeetingId url). isAlnum c"
    if "zoomPattern url = None \<and> meetPattern url = None \<and> teamsPattern url = None"
    using that by (auto simp: extract_fallback dest: in_set_takeD)
qed

text \<open>
  The fallback at a URL that no pattern matches.
\<close>

theorem extractMeetingId_deterministic_witness:
  "zoomPattern ''https://example.com/room 42!'' = None \<and>
   meetPattern ''https://example.com/room 42!'' = None \<and>
   teamsPattern ''https://example.com/room 42!'' = None \<and>
   extractMeetingId ''https://example.com/room 42!'' = ''httpsexamplecomroom4''"
proof -
  have z: "zoomPattern ''https://example.com/room 42!'' = None" by code_simp
  have m: "meetPattern ''https://example.com/room 42!'' = None" by code_simp
  have t: "teamsPattern ''https://example.com/room 42!'' = None" by code_simp
  have e: "take 20 (filter isAlnum ''https://example.com/room 42!'') = ''httpsexamplecomroom4''"
    by code_simp
  have "extractMeetingId ''https://example.com/room 42!'' =
          take 20 (filter isAlnum ''https://example.com/room 42!'')"
    by (rule extractMeetingId_deterministic
         [of "''https://example.com/room 42!''" "''https://example.com/room 42!''",
          THEN conjunct2, THEN conjunct2, THEN conjunct2, THEN mp,
          OF conjI [OF z conjI [OF m t]], THEN conjunct1])
  then have "extractMeetingId ''https://example.com/room 42!'' = ''httpsexamplecomroom4''"
    unfolding e .
  with z m t show ?thesis by (intro conjI)
qed

section \<open>The steps of a join and the registry invariant\<close>

subsection \<open>Running the driver steps\<close>

lemma perform_calls: "(c, r) \<in> set (fst (perform w steps)) \<Longrightarrow> c \<in> call_of ` set steps"
proof (induction w steps arbitrary: c r rule: perform.induct)
  case (1 w)
  then show ?case by simp
next
  case (2 w c' cs)
  then show ?case by (cases "w c'") (auto split: prod.splits)
next
  case (3 w c' cs)
  then show ?case by (auto split: prod.splits)
qed

lemma perform_rejected:
  "(c, Some e) \<in> set (fst (perform w steps)) \<Longrightarrow>
   Try c \<in> set steps \<or> snd (perform w steps) = Some e"
proof (induction w steps rule: perform.induct)
  case (1 w)
  then show ?case by simp
next
  case (2 w c' cs)
  then show ?case by (cases "w c'") (auto split: prod.splits)
next
  case (3 w c' cs)
  then show ?case by (auto split: prod.splits)
qed

lemma perform_all_resolve:
  "\<forall>c. w c = None \<Longrightarrow> perform w steps = (map (\<lambda>st. (call_of st, None)) steps, None)"
  by (induction w steps rule: perform.induct) auto

subsection \<open>The parts of the state after a join\<close>

lemma joinSequence_result:
  "fst (joinSequence w now label tag steps url s) =
     (case snd (perform w (steps (nextHandle s))) of
        Some e \<Rightarrow> Failure e
      | None \<Rightarrow>
         (case w (EvaluateOnNewDocument (nextHandle s)) of
            Some e \<Rightarrow> Failure e
          | None \<Rightarrow> Success (Some (extractMeetingId url))))"
  by (simp add: joinSequence_def startAudioCapture_def Let_def split: prod.splits option.splits)

lemma joinSequence_activeMeetings:
  "activeMeetings (snd (joinSequence w now label tag steps url s)) =
     (case snd (perform w (steps (nextHandle s))) of
        Some e \<Rightarrow> activeMeetings s
      | None \<Rightarrow>
          AList.update (extractMeetingId url)
            \<lparr>browser = nextHandle s, page = nextHandle s, platform = tag, startTime = now,
             status = ''active''\<rparr> (activeMeetings s))"
  by (simp add: joinSequence_def startAudioCapture_def Let_def split: prod.splits option.splits)

lemma joinSequence_calls:
  "calls (snd (joinSequence w now label tag steps url s)) =
     calls s @ fst (perform w (steps (nextHandle s))) @
     (case snd (perform w (steps (nextHandle s))) of
        Some e \<Rightarrow> []
      | None \<Rightarrow> [(EvaluateOnNewDocument (nextHandle s), w (EvaluateOnNewDocument (nextHandle s)))])"
  by (simp add: joinSequence_def startAudioCapture_def Let_def split: prod.splits option.splits)

lemma joinSequence_nextHandle:
  "nextHandle (snd (joinSequence w now label tag steps url s)) = Suc (nextHandle s)"
  by (simp add: joinSequence_def startAudioCapture_def Let_def split: prod.splits option.splits)

lemma joinSequence_tasks:
  "tasks (snd (joinSequence w now label tag steps url s)) = tasks s"
  by (simp add: joinSequence_def startAudioCapture_def Let_def split: prod.splits option.splits)

lemma callsSince_append: "calls s' = calls s @ tr \<Longrightarrow> callsSince s s' = tr"
  by (simp add: callsSince_def)

lemma joinSequence_callsSince:
  "callsSince s (snd (joinSequence w now label tag steps url s)) =
     fst (perform w (steps (nextHandle s))) @
     (case snd (perform w (steps (nextHandle s))) of
        Some e \<Rightarrow> []
      | None \<Rightarrow> [(EvaluateOnNewDocument (nextHandle s), w (EvaluateOnNewDocument (nextHandle s)))])"
  by (rule callsSince_append) (rule joinSequence_calls)

lemma joinSequence_calls_extend:
  "calls (snd (joinSequence w now label tag steps url s)) =
     calls s @ callsSince s (snd (joinSequence w now label tag steps url s))"
  by (simp add: joinSequence_callsSince joinSequence_calls)

lemma joinSequence_launch:
  assumes "steps (nextHandle s) = Must (Launch (nextHandle s)) # cs"
  shows "(Launch (nextHandle s), w (Launch (nextHandle s))) \<in>
           set (callsSince s (snd (joinSequence w now label tag steps url s)))"
proof -
  have "(Launch (nextHandle s), w (Launch (nextHandle s))) \<in>
          set (fst (perform w (Must (Launch (nextHandle s)) # cs)))"
    by (cases "w (Launch (nextHandle s))") (auto split: prod.splits)
  with assms show ?thesis by (simp add: joinSequence_callsSince)
qed

subsection \<open>The three platforms\<close>

lemma plain_zoomSteps: "plainSteps (zoomSteps url pw bn)"
  by (auto simp: plainSteps_def zoomSteps_def isClose_def split: option.splits)

lemma plain_meetSteps: "plainSteps (meetSteps url bn)"
  by (simp add: plainSteps_def meetSteps_def isClose_def)

lemma plain_teamsSteps: "plainSteps (teamsSteps url bn)"
  by (simp add: plainSteps_def teamsSteps_def isClose_def)

lemma join_meeting_cases:
  obtains (unsupported)
      "toLowerCase p \<notin> {''zoom'', ''meet'', ''google'', ''teams'', ''microsoft''}"
      "join_meeting w now p url pw bn s = (Failure ''Unsupported platform'', s)"
    | (supported) label tag steps where
      "toLowerCase p \<in> {''zoom'', ''meet'', ''google'', ''teams'', ''microsoft''}"
      "plainSteps steps"
      "join_meeting w now p url pw bn s = joinSequence w now label tag steps url s"
proof -
  consider "toLowerCase p = ''zoom''"
    | "toLowerCase p \<noteq> ''zoom''" "toLowerCase p = ''meet'' \<or> toLowerCase p = ''google''"
    | "toLowerCase p \<noteq> ''zoom''" "\<not> (toLowerCase p = ''meet'' \<or> toLowerCase p = ''google'')"
      "toLowerCase p = ''teams'' \<or> toLowerCase p = ''microsoft''"
    | "toLowerCase p \<notin> {''zoom'', ''meet'', ''google'', ''teams'', ''microsoft''}"
    by blast
  then show thesis
  proof cases
    case 1
    then have "join_meeting w now p url pw bn s =
        joinSequence w now ''Zoom meeting'' ''zoom'' (zoomSteps url pw (botNameOr bn)) url s"
      by (simp add: join_meeting_def joinZoomMeeting_def)
    with 1 plain_zoomSteps show thesis by (intro supported) simp_all
  next
    case 2
    then have "join_meeting w now p url pw bn s =
        joinSequence w now ''Google Meet'' ''meet'' (meetSteps url (botNameOr bn)) url s"
      by (simp add: join_meeting_def joinGoogleMeet_def)
    with 2 plain_meetSteps show thesis by (intro supported) auto
  next
    case 3
    then have "join_meeting w now p url pw bn s =
        joinSequence w now ''Teams meeting'' ''teams'' (teamsSteps url (botNameOr bn)) url s"
      by (simp add: join_meeting_def joinTeamsMeeting_def)
    with 3 plain_teamsSteps show thesis by (intro supported) auto
  next
    case 4
    then have "join_meeting w now p url pw bn s = (Failure ''Unsupported platform'', s)"
      by (simp add: join_meeting_def)
    with 4 show thesis by (rule unsupported)
  qed
qed

subsection \<open>The registry invariant holds in every reachable state\<close>

lemma update_entries:
  "\<forall>(k', m) \<in> set al. P m \<Longrightarrow> P v \<Longrightarrow> \<forall>(k', m) \<in> set (AList.update k v al). P m"
  by (induction al) auto

lemma delete_entries:
  "\<forall>(k', m) \<in> set al. P m \<Longrightarrow> \<forall>(k', m) \<in> set (AList.delete k al). P m"
  by (induction al) auto

lemma joinSequence_registryOk:
  assumes "registryOk s"
  shows "registryOk (snd (joinSequence w now label tag steps url s))"
proof (cases "snd (perform w (steps (nextHandle s)))")
  case None
  define v where "v = \<lparr>browser = nextHandle s, page = nextHandle s, platform = tag,
    startTime = now, status = ''active''\<rparr>"
  define P where "P = (\<lambda>m::meeting. status m = ''active'' \<and> browser m < Suc (nextHandle s))"
  have old: "\<forall>(k', m) \<in> set (activeMeetings s). P m"
    using assms by (auto simp: registryOk_def P_def)
  have new: "P v" by (simp add: P_def v_def)
  have all: "\<forall>(k', m) \<in> set (AList.update (extractMeetingId url) v (activeMeetings s)). P m"
    using old new by (rule update_entries)
  have reg: "activeMeetings (snd (joinSequence w now label tag steps url s)) =
          AList.update (extractMeetingId url) v (activeMeetings s)"
    using None by (simp add: joinSequence_activeMeetings v_def)
  have "distinct (map fst (AList.update (extractMeetingId url) v (activeMeetings s)))"
    using assms by (simp add: registryOk_def distinct_update)
  with all show ?thesis
    unfolding registryOk_def reg joinSequence_nextHandle P_def by simp
next
  case (Some e)
  then have reg: "activeMeetings (snd (joinSequence w now label tag steps url s)) = activeMeetings s"
    by (simp add: joinSequence_activeMeetings)
  show ?thesis
    unfolding registryOk_def reg joinSequence_nextHandle
    using assms by (auto simp: registryOk_def)
qed

lemma join_meeting_registryOk:
  "registryOk s \<Longrightarrow> registryOk (snd (join_meeting w now p url pw bn s))"
  by (simp add: join_meeting_def joinZoomMeeting_def joinGoogleMeet_def joinTeamsMeeting_def
        joinSequence_registryOk Let_def)

lemma leaveMeeting_registryOk:
  assumes "registryOk s"
  shows "registryOk (snd (leaveMeeting w meetingId s))"
proof -
  have "\<forall>(mid, m) \<in> set (activeMeetings s). status m = ''active'' \<and> browser m < nextHandle s"
    using assms by (simp add: registryOk_def)
  then have "\<forall>(mid, m) \<in> set (AList.delete meetingId (activeMeetings s)).
          status m = ''active'' \<and> browser m < nextHandle s"
    by (rule delete_entries)
  with assms show ?thesis
    by (simp add: leaveMeeting_def registryOk_def distinct_delete split: option.splits)
qed

lemma sendToTranscription_registry:
  "activeMeetings (sendToTranscription w now mid a s) = activeMeetings s \<and>
   nextHandle (sendToTranscription w now mid a s) = nextHandle s \<and>
   listeners (sendToTranscription w now mid a s) = listeners s \<and>
   tasks (sendToTranscription w now mid a s) = tasks s"
  by (simp add: sendToTranscription_def split: option.splits)

lemma forward_registry:
  "activeMeetings (foldl (\<lambda>s' (p, meetingId).
       if P p then sendToTranscription w now meetingId txt s' else s') s ls) = activeMeetings s \<and>
   nextHandle (foldl (\<lambda>s' (p, meetingId).
       if P p then sendToTranscription w now meetingId txt s' else s') s ls) = nextHandle s"
  by (induction ls arbitrary: s) (auto simp: sendToTranscription_registry)

lemma consoleMessage_registryOk:
  "registryOk s \<Longrightarrow> registryOk (consoleMessage w now pg ty txt s)"
  unfolding consoleMessage_def registryOk_def
  using forward_registry [of "\<lambda>p. p = pg \<and> ty = ''log'' \<and> includes_str ''AUDIO_DATA'' txt"]
  by simp

lemma scheduledJob_registryOk:
  assumes "registryOk s"
  shows "registryOk (scheduledJob w now t s)"
proof -
  have "registryOk (s\<lparr>logs := logs s @ [Info (''Scheduled bot joining meeting at '' @ taskTime t)]\<rparr>)"
    using assms by (simp add: registryOk_def)
  then show ?thesis
    by (simp add: scheduledJob_def joinZoomMeeting_def joinGoogleMeet_def joinTeamsMeeting_def
          joinSequence_registryOk Let_def)
qed

lemma jobs_registryOk:
  "registryOk s \<Longrightarrow> registryOk (foldl (\<lambda>s' t. scheduledJob w now t s') s ts)"
  by (induction ts arbitrary: s) (auto simp: scheduledJob_registryOk)

lemma reachable_registryOk: "reachable s \<Longrightarrow> registryOk s"
proof (induction rule: reachable.induct)
  case start
  show ?case by (simp add: registryOk_def newBot_def)
next
  case (join s w now platformName meetingUrl password botName)
  then show ?case by (simp add: join_meeting_registryOk)
next
  case (leave s w meetingId)
  then show ?case by (simp add: leave_meeting_def leaveMeeting_registryOk)
next
  case (console s w now pg msgType msgText)
  then show ?case by (simp add: consoleMessage_registryOk)
next
  case (schedule s meetingUrl scheduledTime cronTime platformName password)
  then show ?case by (simp add: schedule_bot_def registryOk_def)
next
  case (clock s w now d)
  then show ?case by (simp add: tick_def jobs_registryOk)
qed

lemma reachable_inZoom: "reachable inZoom"
  unfolding inZoom_def by (rule reachable.join [OF reachable.start])

lemma inZoom_eval:
  "activeMeetings inZoom = [(''123456789'', \<lparr>browser = 0, page = 0, platform = ''zoom'', startTime = 0, status = ''active''\<rparr>)]"
  by code_simp

section \<open>Joining\<close>

text \<open>
  C8. A join request whose lower-cased platform name is none of \<^verbatim>\<open>zoom\<close>, \<^verbatim>\<open>meet\<close>,
  \<^verbatim>\<open>google\<close>, \<^verbatim>\<open>teams\<close>, \<^verbatim>\<open>microsoft\<close> is answered at once with
  \<^verbatim>\<open>{ success: false, error: 'Unsupported platform' }\<close>; the state is unchanged: no driver
  call is made, nothing is logged and the registry is as before.
\<close>

theorem join_meeting_unsupported:
  "toLowerCase platformName \<notin> {''zoom'', ''meet'', ''google'', ''teams'', ''microsoft''} \<Longrightarrow>
   join_meeting w now platformName meetingUrl password botName s =
     (Failure ''Unsupported platform'', s)"
  by (simp add: join_meeting_def)

text \<open>
  The platform name \<^verbatim>\<open>WebEx\<close> is such a request.
\<close>

theorem join_meeting_unsupported_witness:
  "toLowerCase ''WebEx'' \<notin> {''zoom'', ''meet'', ''google'', ''teams'', ''microsoft''} \<and>
   join_meeting (\<lambda>c. None) 0 ''WebEx'' ''https://example.webex.com/meet/room'' None None newBot =
     (Failure ''Unsupported platform'', newBot)"
proof -
  have l: "toLowerCase ''WebEx'' = ''webex''" by code_simp
  have h: "toLowerCase ''WebEx'' \<notin> {''zoom'', ''meet'', ''google'', ''teams'', ''microsoft''}"
    unfolding l by simp
  from join_meeting_unsupported [OF h] h show ?thesis by simp
qed

text \<open>
  A join that fails: a call that rejects with \<open>e\<close> inside the steps or in the capture
  installation makes the join return \<open>Failure e\<close>; before the registration the registry is
  untouched. No step of a join closes a browser.
\<close>

lemma joinSequence_failure:
  assumes plain: "plainSteps steps"
    and rej: "(c, Some e) \<in> set (callsSince s (snd (joinSequence w now label tag steps url s)))"
    and nd: \<open>c \<noteq> Click (nextHandle s) ''button[aria-label="Dismiss"]''\<close>
  shows "fst (joinSequence w now label tag steps url s) = Failure e \<and>
         (c \<noteq> EvaluateOnNewDocument (nextHandle s) \<longrightarrow>
            activeMeetings (snd (joinSequence w now label tag steps url s)) = activeMeetings s)"
proof (cases "(c, Some e) \<in> set (fst (perform w (steps (nextHandle s))))")
  case True
  then have "Try c \<in> set (steps (nextHandle s)) \<or> snd (perform w (steps (nextHandle s))) = Some e"
    by (rule perform_rejected)
  moreover have "Try c \<notin> set (steps (nextHandle s))"
    using plain nd unfolding plainSteps_def by blast
  ultimately have "snd (perform w (steps (nextHandle s))) = Some e" by simp
  then show ?thesis
    by (simp add: joinSequence_result joinSequence_activeMeetings)
next
  case False
  with rej have last: "snd (perform w (steps (nextHandle s))) = None"
    "c = EvaluateOnNewDocument (nextHandle s)" "w (EvaluateOnNewDocument (nextHandle s)) = Some e"
    by (auto simp: joinSequence_callsSince split: option.splits)
  then show ?thesis by (simp add: joinSequence_result)
qed

lemma joinSequence_no_close:
  assumes plain: "plainSteps steps"
  shows "\<forall>x \<in> set (callsSince s (snd (joinSequence w now label tag steps url s))).
           \<not> isClose (fst x)"
proof
  fix x
  assume x: "x \<in> set (callsSince s (snd (joinSequence w now label tag steps url s)))"
  obtain c r where cr: "x = (c, r)" by (cases x)
  show "\<not> isClose (fst x)"
  proof (cases "(c, r) \<in> set (fst (perform w (steps (nextHandle s))))")
    case True
    then have "c \<in> call_of ` set (steps (nextHandle s))" by (rule perform_calls)
    with plain cr show ?thesis unfolding plainSteps_def by auto
  next
    case False
    with x cr have "c = EvaluateOnNewDocument (nextHandle s)"
      by (auto simp: joinSequence_callsSince split: option.splits)
    with cr show ?thesis by (simp add: isClose_def)
  qed
qed

text \<open>
  C2, as the code has it. When a call made by a join rejects with an error (the click that
  dismisses a popup apart, whose error is dropped), the join returns the failure outcome
  with that error's message; the calls the join has made are appended to the record and none
  of them closes a browser, so a browser that was launched stays open; and unless the
  rejected call is the installation of the audio capture, the registry is as it was before
  the join.
\<close>

theorem failed_join:
  assumes \<open>(c, Some e) \<in> set (callsSince s (snd (join_meeting w now p url pw bn s)))\<close>
    and \<open>c \<noteq> Click (nextHandle s) ''button[aria-label="Dismiss"]''\<close>
  shows \<open>fst (join_meeting w now p url pw bn s) = Failure e \<and>
         calls (snd (join_meeting w now p url pw bn s)) =
           calls s @ callsSince s (snd (join_meeting w now p url pw bn s)) \<and>
         (\<forall>x \<in> set (callsSince s (snd (join_meeting w now p url pw bn s))). \<not> isClose (fst x)) \<and>
         (c \<noteq> EvaluateOnNewDocument (nextHandle s) \<longrightarrow>
            activeMeetings (snd (join_meeting w now p url pw bn s)) = activeMeetings s)\<close>
proof (cases rule: join_meeting_cases [of p w now url pw bn s])
  case unsupported
  with assms(1) show ?thesis by (simp add: callsSince_def)
next
  case (supported label tag steps)
  from supported(2) assms show ?thesis
    unfolding supported(3)
    using joinSequence_failure [of steps c e s w now label tag url]
      joinSequence_no_close [of steps s w now label tag url]
      joinSequence_calls_extend [of w now label tag steps url s]
    by simp
qed

text \<open>
  A Zoom join whose navigation fails: failure outcome, registry still empty.
\<close>

theorem failed_join_witness:
  \<open>(Goto 0 ''https://zoom.us/wc/join/123456789'', Some ''net::ERR_NAME_NOT_RESOLVED'') \<in>
     set (callsSince newBot (snd (join_meeting navigationFails 0 ''zoom'' zoomUrl None None newBot))) \<and>
   Goto 0 ''https://zoom.us/wc/join/123456789'' \<noteq>
     Click (nextHandle newBot) ''button[aria-label="Dismiss"]'' \<and>
   fst (join_meeting navigationFails 0 ''zoom'' zoomUrl None None newBot) =
     Failure ''net::ERR_NAME_NOT_RESOLVED'' \<and>
   activeMeetings (snd (join_meeting navigationFails 0 ''zoom'' zoomUrl None None newBot)) = []\<close>
proof -
  have h1: "(Goto 0 ''https://zoom.us/wc/join/123456789'', Some ''net::ERR_NAME_NOT_RESOLVED'') \<in>
     set (callsSince newBot (snd (join_meeting navigationFails 0 ''zoom'' zoomUrl None None newBot)))"
    by code_simp
  have h2: \<open>Goto 0 ''https://zoom.us/wc/join/123456789'' \<noteq>
     Click (nextHandle newBot) ''button[aria-label="Dismiss"]''\<close>
    by simp
  have h3: "Goto 0 ''https://zoom.us/wc/join/123456789'' \<noteq> EvaluateOnNewDocument (nextHandle newBot)"
    by simp
  have e: "activeMeetings newBot = []" by (simp add: newBot_def)
  from failed_join [OF h1 h2] h3
  have "fst (join_meeting navigationFails 0 ''zoom'' zoomUrl None None newBot) =
          Failure ''net::ERR_NAME_NOT_RESOLVED'' \<and>
        activeMeetings (snd (join_meeting navigationFails 0 ''zoom'' zoomUrl None None newBot)) =
          activeMeetings newBot"
    by blast
  with h1 h2 e show ?thesis by simp
qed

text \<open>
  C2 as written does not hold. A Zoom join whose audio capture installation rejects returns
  a failure, yet the browser it launched is never closed and the entry registered just
  before the installation is still in the registry.
\<close>

theorem failed_join_counterexample:
  "fst (join_meeting audioFails 0 ''zoom'' zoomUrl None None newBot) = Failure ''Target closed'' \<and>
   (Launch 0, None) \<in> set (calls (snd (join_meeting audioFails 0 ''zoom'' zoomUrl None None newBot))) \<and>
   filter (\<lambda>x. isClose (fst x))
     (calls (snd (join_meeting audioFails 0 ''zoom'' zoomUrl None None newBot))) = [] \<and>
   map fst (activeMeetings (snd (join_meeting audioFails 0 ''zoom'' zoomUrl None None newBot))) =
     [''123456789'']"
  by code_simp

text \<open>
  C1, as the code has it. The registry never holds two entries for one meeting id. A join
  request for a supported platform whose URL gives an id that is already registered is not
  rejected: it launches a new browser, distinct from the registered one, and when every call
  resolves it returns success and puts the new session in the place of the registered one,
  which is not closed.
\<close>

theorem duplicate_join_replaces:
  assumes "reachable s"
    and "map_of (activeMeetings s) (extractMeetingId url) = Some m"
    and "toLowerCase p \<in> {''zoom'', ''meet'', ''google'', ''teams'', ''microsoft''}"
  shows "distinct (map fst (activeMeetings s)) \<and>
         distinct (map fst (activeMeetings (snd (join_meeting w now p url pw bn s)))) \<and>
         browser m < nextHandle s \<and>
         (Launch (nextHandle s), w (Launch (nextHandle s))) \<in>
            set (callsSince s (snd (join_meeting w now p url pw bn s))) \<and>
         (\<forall>x \<in> set (callsSince s (snd (join_meeting w now p url pw bn s))). \<not> isClose (fst x)) \<and>
         ((\<forall>c. w c = None) \<longrightarrow>
            fst (join_meeting w now p url pw bn s) = Success (Some (extractMeetingId url)) \<and>
            map fst (activeMeetings (snd (join_meeting w now p url pw bn s))) =
              map fst (activeMeetings s) \<and>
            (\<exists>m'. map_of (activeMeetings (snd (join_meeting w now p url pw bn s)))
                    (extractMeetingId url) = Some m' \<and>
                  browser m' = nextHandle s \<and> status m' = ''active''))"
proof (cases rule: join_meeting_cases [of p w now url pw bn s])
  case unsupported
  with assms(3) show ?thesis by simp
next
  case (supported label tag steps)
  have ok: "registryOk s" using assms(1) by (rule reachable_registryOk)
  have "reachable (snd (join_meeting w now p url pw bn s))"
    using assms(1) by (rule reachable.join)
  then have ok': "registryOk (snd (join_meeting w now p url pw bn s))"
    by (rule reachable_registryOk)
  have "(extractMeetingId url, m) \<in> set (activeMeetings s)"
    using assms(2) by (rule map_of_SomeD)
  with ok have old: "browser m < nextHandle s" and key: "extractMeetingId url \<in> set (map fst (activeMeetings s))"
    by (force simp: registryOk_def)+
  obtain cs where "steps (nextHandle s) = Must (Launch (nextHandle s)) # cs"
    using supported(2) unfolding plainSteps_def by blast
  then have launch: "(Launch (nextHandle s), w (Launch (nextHandle s))) \<in>
            set (callsSince s (snd (join_meeting w now p url pw bn s)))"
    unfolding supported(3) by (rule joinSequence_launch)
  have good: "fst (join_meeting w now p url pw bn s) = Success (Some (extractMeetingId url)) \<and>
            map fst (activeMeetings (snd (join_meeting w now p url pw bn s))) =
              map fst (activeMeetings s) \<and>
            (\<exists>m'. map_of (activeMeetings (snd (join_meeting w now p url pw bn s)))
                    (extractMeetingId url) = Some m' \<and>
                  browser m' = nextHandle s \<and> status m' = ''active'')"
    if "\<forall>c. w c = None"
  proof -
    have p: "snd (perform w (steps (nextHandle s))) = None"
      using that by (simp add: perform_all_resolve)
    have e: "w (EvaluateOnNewDocument (nextHandle s)) = None" using that by simp
    show ?thesis
      unfolding supported(3)
      using p e key
      by (simp add: joinSequence_result joinSequence_activeMeetings update_keys update_conv')
  qed
  have noclose: "\<forall>x \<in> set (callsSince s (snd (join_meeting w now p url pw bn s))).
      \<not> isClose (fst x)"
    unfolding supported(3) using supported(2) by (rule joinSequence_no_close)
  from ok ok' old launch noclose good show ?thesis
    by (simp add: registryOk_def)
qed

text \<open>
  The same Zoom URL joined a second time, every call resolving.
\<close>

theorem duplicate_join_replaces_witness:
  "reachable inZoom \<and>
   map_of (activeMeetings inZoom) (extractMeetingId zoomUrl) =
     Some \<lparr>browser = 0, page = 0, platform = ''zoom'', startTime = 0, status = ''active''\<rparr> \<and>
   toLowerCase ''Zoom'' \<in> {''zoom'', ''meet'', ''google'', ''teams'', ''microsoft''} \<and>
   fst (join_meeting allGood 1 ''Zoom'' zoomUrl None None inZoom) =
     Success (Some (extractMeetingId zoomUrl)) \<and>
   map fst (activeMeetings (snd (join_meeting allGood 1 ''Zoom'' zoomUrl None None inZoom))) =
     map fst (activeMeetings inZoom)"
proof -
  have h1: "map_of (activeMeetings inZoom) (extractMeetingId zoomUrl) =
     Some \<lparr>browser = 0, page = 0, platform = ''zoom'', startTime = 0, status = ''active''\<rparr>"
    by code_simp
  have l: "toLowerCase ''Zoom'' = ''zoom''" by code_simp
  have h2: "toLowerCase ''Zoom'' \<in> {''zoom'', ''meet'', ''google'', ''teams'', ''microsoft''}"
    unfolding l by simp
  have h3: "\<forall>c. allGood c = None" by (simp add: allGood_def)
  from duplicate_join_replaces [OF reachable_inZoom h1 h2, of allGood 1 None None] h3
  have "fst (join_meeting allGood 1 ''Zoom'' zoomUrl None None inZoom) =
     Success (Some (extractMeetingId zoomUrl)) \<and>
   map fst (activeMeetings (snd (join_meeting allGood 1 ''Zoom'' zoomUrl None None inZoom))) =
     map fst (activeMeetings inZoom)"
    by blast
  with reachable_inZoom h1 h2 show ?thesis by blast
qed

text \<open>
  C1 as written does not hold. With a session for \<^verbatim>\<open>123456789\<close> registered on browser 0,
  a second join of the same URL succeeds, launches browser 1, stores it under the same id and
  closes nothing.
\<close>

theorem duplicate_join_counterexample:
  "map fst (activeMeetings inZoom) = [extractMeetingId zoomUrl] \<and>
   map (\<lambda>x. browser (snd x)) (activeMeetings inZoom) = [0] \<and>
   fst (join_meeting allGood 1 ''zoom'' zoomUrl None None inZoom) = Success (Some ''123456789'') \<and>
   (Launch 1, None) \<in> set (calls (snd (join_meeting allGood 1 ''zoom'' zoomUrl None None inZoom))) \<and>
   map (\<lambda>x. browser (snd x))
     (activeMeetings (snd (join_meeting allGood 1 ''zoom'' zoomUrl None None inZoom))) = [1] \<and>
   filter (\<lambda>x. isClose (fst x))
     (calls (snd (join_meeting allGood 1 ''zoom'' zoomUrl None None inZoom))) = []"
  by code_simp

section \<open>Listing\<close>

text \<open>
  C10. In every reachable state every entry of the registry has status \<^verbatim>\<open>'active'\<close>: the
  joins store no other status and no operation updates one, so every summary that
  \<^verbatim>\<open>GET /api/active-meetings\<close> returns has status \<^verbatim>\<open>'active'\<close>.
\<close>

theorem registry_status_active:
  "reachable s \<Longrightarrow>
   (\<forall>(mid, m) \<in> set (activeMeetings s). status m = ''active'') \<and>
   (\<forall>x \<in> set (active_meetings s). sum_status x = ''active'')"
proof -
  assume "reachable s"
  then have "registryOk s" by (rule reachable_registryOk)
  then have a: "\<forall>(mid, m) \<in> set (activeMeetings s). status m = ''active''"
    by (auto simp: registryOk_def)
  then have "\<forall>x \<in> set (active_meetings s). sum_status x = ''active''"
    by (auto simp: active_meetings_def)
  with a show ?thesis by simp
qed

text \<open>
  After one Zoom join the listing has one summary, with status \<^verbatim>\<open>'active'\<close>.
\<close>

theorem registry_status_active_witness:
  "reachable inZoom \<and> map sum_id (active_meetings inZoom) = [''123456789''] \<and>
   map sum_status (active_meetings inZoom) = [''active'']"
proof -
  have ids: "map sum_id (active_meetings inZoom) = [''123456789'']"
    by (simp add: active_meetings_def inZoom_eval)
  then obtain x where x: "active_meetings inZoom = [x]"
    by auto
  from registry_status_active [OF reachable_inZoom]
  have "\<forall>x \<in> set (active_meetings inZoom). sum_status x = ''active''" by (rule conjunct2)
  with x have "map sum_status (active_meetings inZoom) = [''active'']" by simp
  with ids reachable_inZoom show ?thesis by simp
qed

section \<open>Leaving\<close>

text \<open>
  C4. Leaving a meeting id that has no entry in the registry returns the failure outcome
  \<^verbatim>\<open>{ success: false, error: 'Meeting not found' }\<close> and leaves the whole state, the
  registry included, as it was; the result is a returned value, nothing is thrown, and no
  call reaches the driver.
\<close>

theorem leaveMeeting_absent:
  "map_of (activeMeetings s) meetingId = None \<Longrightarrow>
   leaveMeeting w meetingId s = (Failure ''Meeting not found'', s) \<and>
   leave_meeting w meetingId s = (Failure ''Meeting not found'', s)"
  by (simp add: leaveMeeting_def leave_meeting_def)

text \<open>
  Leaving \<^verbatim>\<open>123456789\<close> on a bot that has joined nothing.
\<close>

theorem leaveMeeting_absent_witness:
  "map_of (activeMeetings newBot) ''123456789'' = None \<and>
   leaveMeeting (\<lambda>c. Some ''closed'') ''123456789'' newBot =
     (Failure ''Meeting not found'', newBot)"
proof -
  have h: "map_of (activeMeetings newBot) ''123456789'' = None"
    by (simp add: newBot_def)
  from leaveMeeting_absent [OF h, of "\<lambda>c. Some ''closed''"] h show ?thesis by simp
qed

text \<open>
  The two outcomes of leaving a registered meeting.
\<close>

lemma leaveMeeting_closes:
  assumes "map_of (activeMeetings s) meetingId = Some m"
  shows "w (Close (browser m)) = None \<Longrightarrow>
           leaveMeeting w meetingId s =
             (Success None,
              s\<lparr>calls := calls s @ [(Close (browser m), None)],
                activeMeetings := AList.delete meetingId (activeMeetings s),
                logs := logs s @ [Info (''Left meeting: '' @ meetingId)]\<rparr>)"
    and "w (Close (browser m)) = Some e \<Longrightarrow>
           leaveMeeting w meetingId s =
             (Failure e,
              s\<lparr>calls := calls s @ [(Close (browser m), Some e)],
                logs := logs s @ [Error ''Error leaving meeting:'' e]\<rparr>)"
  using assms by (simp_all add: leaveMeeting_def)

text \<open>
  C6, as the code has it. For a registered session, when closing the browser succeeds the
  leave returns success and the entry is gone from the registry; when closing rejects with
  an error, the leave returns a failure with that error's message and the registry is
  unchanged, the entry still in it.
\<close>

theorem leave_removes_entry:
  assumes "map_of (activeMeetings s) meetingId = Some m"
  shows "(w (Close (browser m)) = None \<longrightarrow>
            fst (leaveMeeting w meetingId s) = Success None \<and>
            map_of (activeMeetings (snd (leaveMeeting w meetingId s))) meetingId = None) \<and>
         (\<forall>e. w (Close (browser m)) = Some e \<longrightarrow>
            fst (leaveMeeting w meetingId s) = Failure e \<and>
            activeMeetings (snd (leaveMeeting w meetingId s)) = activeMeetings s)"
  using assms by (simp add: leaveMeeting_closes delete_conv')

text \<open>
  Leaving the joined Zoom meeting, once with a close that resolves and once with a close
  that rejects.
\<close>

theorem leave_removes_entry_witness:
  "map_of (activeMeetings inZoom) ''123456789'' =
     Some \<lparr>browser = 0, page = 0, platform = ''zoom'', startTime = 0, status = ''active''\<rparr> \<and>
   allGood (Close 0) = None \<and>
   closeFails (Close 0) = Some ''Protocol error'' \<and>
   fst (leaveMeeting allGood ''123456789'' inZoom) = Success None \<and>
   map_of (activeMeetings (snd (leaveMeeting allGood ''123456789'' inZoom))) ''123456789'' = None \<and>
   fst (leaveMeeting closeFails ''123456789'' inZoom) = Failure ''Protocol error'' \<and>
   activeMeetings (snd (leaveMeeting closeFails ''123456789'' inZoom)) = activeMeetings inZoom"
proof -
  have h: "map_of (activeMeetings inZoom) ''123456789'' =
     Some \<lparr>browser = 0, page = 0, platform = ''zoom'', startTime = 0, status = ''active''\<rparr>"
    by code_simp
  have g: "allGood (Close 0) = None" by (simp add: allGood_def)
  have f: "closeFails (Close 0) = Some ''Protocol error''" by (simp add: closeFails_def isClose_def)
  from leave_removes_entry [OF h, of allGood] g
  have a: "fst (leaveMeeting allGood ''123456789'' inZoom) = Success None \<and>
   map_of (activeMeetings (snd (leaveMeeting allGood ''123456789'' inZoom))) ''123456789'' = None"
    by simp
  from leave_removes_entry [OF h, of closeFails] f
  have b: "fst (leaveMeeting closeFails ''123456789'' inZoom) = Failure ''Protocol error'' \<and>
   activeMeetings (snd (leaveMeeting closeFails ''123456789'' inZoom)) = activeMeetings inZoom"
    by simp
  from h g f a b show ?thesis by blast
qed

text \<open>
  C6 as written does not hold. When the close rejects, the leave returns a failure and the
  entry is still registered.
\<close>

theorem leave_removes_entry_counterexample:
  "map fst (activeMeetings inZoom) = [''123456789''] \<and>
   fst (leaveMeeting closeFails ''123456789'' inZoom) = Failure ''Protocol error'' \<and>
   map fst (activeMeetings (snd (leaveMeeting closeFails ''123456789'' inZoom))) = [''123456789'']"
  by code_simp

text \<open>
  The method is its two parts run one after the other, and two requests handled one after
  the other are two runs of the method.
\<close>

lemma leaveMeeting_phases:
  "leaveMeeting w meetingId s = leaveSettle w (leaveBegin meetingId s) s"
  by (simp add: leaveMeeting_def leaveSettle_def leaveBegin_def leaveResume_def
        split: option.splits)

lemma leaveThenLeave_runs:
  "leaveThenLeave w w' meetingId s =
     ((fst (leaveMeeting w meetingId s),
       fst (leaveMeeting w' meetingId (snd (leaveMeeting w meetingId s)))),
      snd (leaveMeeting w' meetingId (snd (leaveMeeting w meetingId s))))"
  by (simp add: leaveThenLeave_def leaveMeeting_phases split: prod.splits)

lemma leaveResume_calls:
  "calls (snd (leaveResume w meetingId m s)) =
     calls s @ [(Close (browser m), w (Close (browser m)))]"
  by (cases "w (Close (browser m))") (simp_all add: leaveResume_def)

lemma leaveResume_result:
  "fst (leaveResume w meetingId m s) =
     (case w (Close (browser m)) of None \<Rightarrow> Success None | Some e \<Rightarrow> Failure e)"
  by (cases "w (Close (browser m))") (simp_all add: leaveResume_def)

lemma leaveResume_registry:
  "activeMeetings (snd (leaveResume w meetingId m s)) =
     (case w (Close (browser m)) of
        None \<Rightarrow> AList.delete meetingId (activeMeetings s)
      | Some e \<Rightarrow> activeMeetings s)"
  by (cases "w (Close (browser m))") (simp_all add: leaveResume_def)

lemma leaveDuringLeave_found:
  assumes "map_of (activeMeetings s) meetingId = Some m"
  shows "leaveDuringLeave w w' meetingId s =
           ((fst (leaveResume w meetingId m s),
             fst (leaveResume w' meetingId m (snd (leaveResume w meetingId m s)))),
            snd (leaveResume w' meetingId m (snd (leaveResume w meetingId m s))))"
  using assms
  by (simp add: leaveDuringLeave_def leaveBegin_def leaveSettle_def split: prod.splits)

lemma leave_after_good_close:
  assumes "map_of (activeMeetings s) meetingId = Some m" and "w (Close (browser m)) = None"
  shows "leaveThenLeave w w' meetingId s =
           ((Success None, Failure ''Meeting not found''), snd (leaveMeeting w meetingId s))"
    and "callsSince s (snd (leaveThenLeave w w' meetingId s)) = [(Close (browser m), None)]"
proof -
  have gone: "map_of (activeMeetings (snd (leaveMeeting w meetingId s))) meetingId = None"
    using assms by (simp add: leaveMeeting_closes delete_conv')
  then have second: "leaveMeeting w' meetingId (snd (leaveMeeting w meetingId s)) =
              (Failure ''Meeting not found'', snd (leaveMeeting w meetingId s))"
    by (simp add: leaveMeeting_def)
  have first: "fst (leaveMeeting w meetingId s) = Success None"
    using assms by (simp add: leaveMeeting_closes)
  show run: "leaveThenLeave w w' meetingId s =
           ((Success None, Failure ''Meeting not found''), snd (leaveMeeting w meetingId s))"
    unfolding leaveThenLeave_runs second first by simp
  show "callsSince s (snd (leaveThenLeave w w' meetingId s)) = [(Close (browser m), None)]"
    unfolding run using assms by (simp add: leaveMeeting_closes callsSince_def)
qed

lemma leave_after_bad_close:
  assumes "map_of (activeMeetings s) meetingId = Some m" and "w (Close (browser m)) = Some e"
  shows "fst (leaveThenLeave w w' meetingId s) =
           (Failure e, case w' (Close (browser m)) of None \<Rightarrow> Success None | Some e' \<Rightarrow> Failure e')"
    and "callsSince s (snd (leaveThenLeave w w' meetingId s)) =
           [(Close (browser m), Some e), (Close (browser m), w' (Close (browser m)))]"
proof -
  have first: "leaveMeeting w meetingId s =
      (Failure e, s\<lparr>calls := calls s @ [(Close (browser m), Some e)],
                    logs := logs s @ [Error ''Error leaving meeting:'' e]\<rparr>)"
    using assms by (simp add: leaveMeeting_closes)
  have still: "map_of (activeMeetings (snd (leaveMeeting w meetingId s))) meetingId = Some m"
    unfolding first using assms(1) by simp
  have c1: "calls (snd (leaveMeeting w meetingId s)) = calls s @ [(Close (browser m), Some e)]"
    unfolding first by simp
  have second: "leaveMeeting w' meetingId (snd (leaveMeeting w meetingId s)) =
      leaveResume w' meetingId m (snd (leaveMeeting w meetingId s))"
    using still by (simp add: leaveMeeting_phases leaveBegin_def leaveSettle_def)
  show "fst (leaveThenLeave w w' meetingId s) =
           (Failure e, case w' (Close (browser m)) of None \<Rightarrow> Success None | Some e' \<Rightarrow> Failure e')"
    unfolding leaveThenLeave_runs second leaveResume_result using first by simp
  show "callsSince s (snd (leaveThenLeave w w' meetingId s)) =
           [(Close (browser m), Some e), (Close (browser m), w' (Close (browser m)))]"
    unfolding leaveThenLeave_runs second
    by (simp add: leaveResume_calls c1 callsSince_def)
qed

lemma leave_during_leave:
  assumes "map_of (activeMeetings s) meetingId = Some m"
  shows "fst (leaveDuringLeave w w' meetingId s) =
           (case w (Close (browser m)) of None \<Rightarrow> Success None | Some e \<Rightarrow> Failure e,
            case w' (Close (browser m)) of None \<Rightarrow> Success None | Some e \<Rightarrow> Failure e)"
    and "callsSince s (snd (leaveDuringLeave w w' meetingId s)) =
           [(Close (browser m), w (Close (browser m))),
            (Close (browser m), w' (Close (browser m)))]"
  unfolding leaveDuringLeave_found [OF assms]
  by (simp_all add: leaveResume_result leaveResume_calls callsSince_def)

text \<open>
  C5, as the code has it. Take a registered session and two leaves of its id. When the
  second leave starts after the first has answered and the browser closed at the first, the
  first answers success, the second answers \<^verbatim>\<open>'Meeting not found'\<close> and changes nothing,
  and close has been called exactly once. When the second starts after the first has
  answered and the close of the first was rejected, the first answers that failure, the entry
  stays, and the second calls close on the same browser again and answers with the outcome
  of its own close. When the second starts while the first still waits for its close, its
  lookup finds the entry too: close is called twice on the same browser, and each leave
  answers with the outcome of its own close, success when it resolves, never
  \<^verbatim>\<open>'Meeting not found'\<close> from the lookup.
\<close>

theorem leave_twice:
  assumes "map_of (activeMeetings s) meetingId = Some m"
  shows "(w (Close (browser m)) = None \<longrightarrow>
            leaveThenLeave w w' meetingId s =
              ((Success None, Failure ''Meeting not found''), snd (leaveMeeting w meetingId s)) \<and>
            callsSince s (snd (leaveThenLeave w w' meetingId s)) =
              [(Close (browser m), None)]) \<and>
         (\<forall>e. w (Close (browser m)) = Some e \<longrightarrow>
            fst (leaveThenLeave w w' meetingId s) =
              (Failure e,
               case w' (Close (browser m)) of None \<Rightarrow> Success None | Some e' \<Rightarrow> Failure e') \<and>
            callsSince s (snd (leaveThenLeave w w' meetingId s)) =
              [(Close (browser m), Some e), (Close (browser m), w' (Close (browser m)))]) \<and>
         fst (leaveDuringLeave w w' meetingId s) =
           (case w (Close (browser m)) of None \<Rightarrow> Success None | Some e \<Rightarrow> Failure e,
            case w' (Close (browser m)) of None \<Rightarrow> Success None | Some e \<Rightarrow> Failure e) \<and>
         callsSince s (snd (leaveDuringLeave w w' meetingId s)) =
           [(Close (browser m), w (Close (browser m))),
            (Close (browser m), w' (Close (browser m)))]"
proof (intro conjI impI allI)
  assume ok: "w (Close (browser m)) = None"
  from assms ok show "leaveThenLeave w w' meetingId s =
      ((Success None, Failure ''Meeting not found''), snd (leaveMeeting w meetingId s))"
    by (rule leave_after_good_close(1))
  from assms ok show "callsSince s (snd (leaveThenLeave w w' meetingId s)) =
      [(Close (browser m), None)]"
    by (rule leave_after_good_close(2))
next
  fix e assume bad: "w (Close (browser m)) = Some e"
  from assms bad show "fst (leaveThenLeave w w' meetingId s) =
      (Failure e, case w' (Close (browser m)) of None \<Rightarrow> Success None | Some e' \<Rightarrow> Failure e')"
    by (rule leave_after_bad_close(1))
  from assms bad show "callsSince s (snd (leaveThenLeave w w' meetingId s)) =
      [(Close (browser m), Some e), (Close (browser m), w' (Close (browser m)))]"
    by (rule leave_after_bad_close(2))
next
  from assms show "fst (leaveDuringLeave w w' meetingId s) =
           (case w (Close (browser m)) of None \<Rightarrow> Success None | Some e \<Rightarrow> Failure e,
            case w' (Close (browser m)) of None \<Rightarrow> Success None | Some e \<Rightarrow> Failure e)"
    by (rule leave_during_leave(1))
  from assms show "callsSince s (snd (leaveDuringLeave w w' meetingId s)) =
           [(Close (browser m), w (Close (browser m))),
            (Close (browser m), w' (Close (browser m)))]"
    by (rule leave_during_leave(2))
qed

text \<open>
  Two leaves of the joined Zoom meeting: the second after a first whose close resolves, the
  second after a first whose close is rejected, and the second during the first, both
  closes resolving.
\<close>

theorem leave_twice_witness:
  "map_of (activeMeetings inZoom) ''123456789'' =
     Some \<lparr>browser = 0, page = 0, platform = ''zoom'', startTime = 0, status = ''active''\<rparr> \<and>
   allGood (Close 0) = None \<and>
   closeFails (Close 0) = Some ''Protocol error'' \<and>
   fst (leaveThenLeave allGood closeFails ''123456789'' inZoom) =
     (Success None, Failure ''Meeting not found'') \<and>
   callsSince inZoom (snd (leaveThenLeave allGood closeFails ''123456789'' inZoom)) =
     [(Close 0, None)] \<and>
   fst (leaveThenLeave closeFails allGood ''123456789'' inZoom) =
     (Failure ''Protocol error'', Success None) \<and>
   callsSince inZoom (snd (leaveThenLeave closeFails allGood ''123456789'' inZoom)) =
     [(Close 0, Some ''Protocol error''), (Close 0, None)] \<and>
   fst (leaveDuringLeave allGood allGood ''123456789'' inZoom) = (Success None, Success None) \<and>
   callsSince inZoom (snd (leaveDuringLeave allGood allGood ''123456789'' inZoom)) =
     [(Close 0, None), (Close 0, None)]"
proof -
  define m where "m = \<lparr>browser = 0, page = 0, platform = ''zoom'', startTime = 0, status = ''active''\<rparr>"
  have h: "map_of (activeMeetings inZoom) ''123456789'' = Some m"
    unfolding m_def by code_simp
  have bm: "browser m = 0" by (simp add: m_def)
  have g0: "allGood (Close 0) = None" by (simp add: allGood_def)
  have f0: "closeFails (Close 0) = Some ''Protocol error''"
    by (simp add: closeFails_def isClose_def)
  have g: "allGood (Close (browser m)) = None" unfolding bm by (rule g0)
  have f: "closeFails (Close (browser m)) = Some ''Protocol error''" unfolding bm by (rule f0)
  note a = leave_twice [OF h, of allGood closeFails, THEN conjunct1, THEN mp, OF g]
  note b = leave_twice [OF h, of closeFails allGood, THEN conjunct2, THEN conjunct1, THEN spec,
    THEN mp, OF f]
  note c = leave_twice [OF h, of allGood allGood, THEN conjunct2, THEN conjunct2]
  have a1: "fst (leaveThenLeave allGood closeFails ''123456789'' inZoom) =
     (Success None, Failure ''Meeting not found'')"
    using a [THEN conjunct1] by simp
  have a2: "callsSince inZoom (snd (leaveThenLeave allGood closeFails ''123456789'' inZoom)) =
     [(Close 0, None)]"
    using a [THEN conjunct2] unfolding bm .
  have b1: "fst (leaveThenLeave closeFails allGood ''123456789'' inZoom) =
     (Failure ''Protocol error'', Success None)"
    using b [THEN conjunct1] unfolding bm g0 by simp
  have b2: "callsSince inZoom (snd (leaveThenLeave closeFails allGood ''123456789'' inZoom)) =
     [(Close 0, Some ''Protocol error''), (Close 0, None)]"
    using b [THEN conjunct2] unfolding bm g0 .
  have c1: "fst (leaveDuringLeave allGood allGood ''123456789'' inZoom) =
     (Success None, Success None)"
    using c [THEN conjunct1] unfolding bm g0 by simp
  have c2: "callsSince inZoom (snd (leaveDuringLeave allGood allGood ''123456789'' inZoom)) =
     [(Close 0, None), (Close 0, None)]"
    using c [THEN conjunct2] unfolding bm g0 .
  show ?thesis
    using h [unfolded m_def] g0 f0 a1 a2 b1 b2 c1 c2 by (intro conjI)
qed

text \<open>
  C5 as written does not hold. After a first leave whose close is rejected, a second leave
  does not answer \<^verbatim>\<open>'Meeting not found'\<close>: it closes the browser again and succeeds. And
  a second leave that starts while the first waits for its close finds the entry as well:
  both answer success and close has been called twice.
\<close>

theorem leave_twice_counterexample:
  "map fst (activeMeetings inZoom) = [''123456789''] \<and>
   fst (leaveThenLeave closeFails allGood ''123456789'' inZoom) =
     (Failure ''Protocol error'', Success None) \<and>
   callsSince inZoom (snd (leaveThenLeave closeFails allGood ''123456789'' inZoom)) =
     [(Close 0, Some ''Protocol error''), (Close 0, None)] \<and>
   fst (leaveDuringLeave allGood allGood ''123456789'' inZoom) = (Success None, Success None) \<and>
   callsSince inZoom (snd (leaveDuringLeave allGood allGood ''123456789'' inZoom)) =
     [(Close 0, None), (Close 0, None)]"
  by code_simp

section \<open>Relaying audio\<close>

text \<open>
  C7. When the POST of an audio chunk rejects, \<^verbatim>\<open>sendToTranscription\<close> returns normally:
  the error is logged, the registry (and so every session's status) and the console
  listeners are unchanged, the only call made is the POST, no browser is closed, and the
  next chunk is posted as usual, whatever the answer to it.
\<close>

theorem relay_failure_absorbed:
  assumes "w (Post meetingId audioData now) = Some e"
  shows "activeMeetings (sendToTranscription w now meetingId audioData s) = activeMeetings s \<and>
         listeners (sendToTranscription w now meetingId audioData s) = listeners s \<and>
         logs (sendToTranscription w now meetingId audioData s) =
           logs s @ [Error ''Error sending audio to transcription:'' e] \<and>
         calls (sendToTranscription w now meetingId audioData s) =
           calls s @ [(Post meetingId audioData now, Some e)] \<and>
         calls (sendToTranscription w' now' meetingId audioData'
                 (sendToTranscription w now meetingId audioData s)) =
           calls s @ [(Post meetingId audioData now, Some e),
                      (Post meetingId audioData' now', w' (Post meetingId audioData' now'))]"
  using assms
  by (cases "w' (Post meetingId audioData' now')") (simp_all add: sendToTranscription_def)

text \<open>
  A refused connection for one chunk, then the next chunk delivered.
\<close>

theorem relay_failure_absorbed_witness:
  "postFails (Post ''123456789'' ''AUDIO_DATA 1'' 7) = Some ''connect ECONNREFUSED'' \<and>
   activeMeetings (sendToTranscription postFails 7 ''123456789'' ''AUDIO_DATA 1'' inZoom) =
     activeMeetings inZoom \<and>
   calls (sendToTranscription allGood 8 ''123456789'' ''AUDIO_DATA 2''
           (sendToTranscription postFails 7 ''123456789'' ''AUDIO_DATA 1'' inZoom)) =
     calls inZoom @ [(Post ''123456789'' ''AUDIO_DATA 1'' 7, Some ''connect ECONNREFUSED''),
                     (Post ''123456789'' ''AUDIO_DATA 2'' 8, None)]"
proof -
  have h: "postFails (Post ''123456789'' ''AUDIO_DATA 1'' 7) = Some ''connect ECONNREFUSED''"
    by (simp add: postFails_def)
  have g: "allGood (Post ''123456789'' ''AUDIO_DATA 2'' 8) = None" by (simp add: allGood_def)
  from relay_failure_absorbed
    [where w = postFails and meetingId = "''123456789''" and audioData = "''AUDIO_DATA 1''"
       and now = 7 and s = inZoom and w' = allGood and audioData' = "''AUDIO_DATA 2''"
       and now' = 8, OF h] g h
  show ?thesis by simp
qed

section \<open>Scheduled joins\<close>

text \<open>Running the due tasks removes none of them.\<close>

lemma scheduledJob_tasks: "tasks (scheduledJob w now t s) = tasks s"
  by (simp add: scheduledJob_def joinZoomMeeting_def joinGoogleMeet_def joinTeamsMeeting_def
        joinSequence_tasks Let_def)

lemma jobs_tasks: "tasks (foldl (\<lambda>s' t. scheduledJob w now t s') s ts) = tasks s"
  by (induction ts arbitrary: s) (simp_all add: scheduledJob_tasks)

lemma tick_tasks: "tasks (tick w now d s) = tasks s"
  by (simp add: tick_def jobs_tasks)

text \<open>
  C9 at a concrete run. A Zoom join is scheduled for 2 November 2026, 10:30. At that minute
  the job runs and launches browser 0; the task is still registered afterwards; and at
  10:30 on 2 November 2027 the same task runs again and launches browser 1.
\<close>

theorem scheduled_join_fires_again:
  "(Launch 0, None) \<in> set (calls (tick allGood 0 scheduledAt zoomScheduled)) \<and>
   tasks (tick allGood 0 scheduledAt zoomScheduled) = tasks zoomScheduled \<and>
   length (tasks zoomScheduled) = 1 \<and>
   getFullYear oneYearLater = getFullYear scheduledAt + 1 \<and>
   (Launch 1, None) \<in>
     set (callsSince (tick allGood 0 scheduledAt zoomScheduled)
            (tick allGood 1 oneYearLater (tick allGood 0 scheduledAt zoomScheduled)))"
  by code_simp

end
